theory Spec2Isabelle
  imports Main "HOL-Library.AList" "HOL-Library.Multiset" "HOL-Library.Sublist"
begin

section \<open>Values, records and collections\<close>

text \<open>
  The values stored in a record: Python's \<open>None\<close>, unbounded integers, strings and lists.
  Equality of these values is structural, as Python's \<open>==\<close> is on them. Floats, booleans
  (which Python identifies with 0 and 1) and nested dictionaries are outside the model.
\<close>

datatype val = VNone | VInt int | VStr string | VList "val list"

text \<open>
  A Python \<open>dict\<close> with string keys: an association list in insertion order whose keys are
  pairwise distinct. \<open>AList.update\<close> is Python's item assignment: it overwrites the value
  of a key that is present, in place, and appends a new key at the end.
\<close>

type_synonym dict = "(string \<times> val) list"

definition keys :: "dict \<Rightarrow> string list" where
  "keys d = map fst d"

definition wf_dict :: "dict \<Rightarrow> bool" where
  "wf_dict d = distinct (keys d)"

datatype error = ValueError | KeyError | TypeError | IndexError

text \<open>Sequencing of computations that may raise.\<close>

fun bind_err :: "error + 'a \<Rightarrow> ('a \<Rightarrow> error + 'b) \<Rightarrow> error + 'b" where
  "bind_err (Inl e) f = Inl e"
| "bind_err (Inr x) f = f x"

fun mapM_err :: "('a \<Rightarrow> error + 'b) \<Rightarrow> 'a list \<Rightarrow> error + 'b list" where
  "mapM_err f [] = Inr []"
| "mapM_err f (x # xs) =
     bind_err (f x) (\<lambda>y. bind_err (mapM_err f xs) (\<lambda>ys. Inr (y # ys)))"

text \<open>\<open>d[k]\<close>: raises \<open>KeyError\<close> when the key is missing.\<close>

definition getitem :: "dict \<Rightarrow> string \<Rightarrow> error + val" where
  "getitem d k = (case map_of d k of None \<Rightarrow> Inl KeyError | Some v \<Rightarrow> Inr v)"

text \<open>\<open>xs[i]\<close> on a list: a negative index counts from the end.\<close>

definition list_getitem :: "'a list \<Rightarrow> int \<Rightarrow> error + 'a" where
  "list_getitem xs i =
     (if 0 \<le> i then (if nat i < length xs then Inr (xs ! nat i) else Inl IndexError)
      else (if nat (- i) \<le> length xs then Inr (xs ! (length xs - nat (- i)))
            else Inl IndexError))"

text \<open>
  The class \<open>Clumper\<close>: the list \<open>blob\<close> and the tuple \<open>groups\<close>. The constructor copies
  the list it is given, so no two objects share a list; a collection is its value.
\<close>

record 'a clumper =
  blob :: "'a list"
  groups :: "string list"

definition Clumper :: "'a list \<Rightarrow> string list \<Rightarrow> 'a clumper" where
  "Clumper b g = \<lparr>blob = b, groups = g\<rparr>"

definition create_new :: "'a clumper \<Rightarrow> 'b list \<Rightarrow> 'b clumper" where
  "create_new self b = Clumper b (groups self)"

definition len :: "'a clumper \<Rightarrow> nat" where
  "len self = length (blob self)"

definition copy :: "'a clumper \<Rightarrow> 'a clumper" where
  "copy self = create_new self (blob self)"

text \<open>
  \<open>keep\<close> filters with each function in turn. A function may raise (the filters built by
  \<open>_subsets\<close> read \<open>d[key]\<close>), and then \<open>keep\<close> raises.
\<close>

fun filter_err :: "('a \<Rightarrow> error + bool) \<Rightarrow> 'a list \<Rightarrow> error + 'a list" where
  "filter_err f [] = Inr []"
| "filter_err f (d # ds) =
     bind_err (f d) (\<lambda>b. bind_err (filter_err f ds) (\<lambda>r. Inr (if b then d # r else r)))"

fun keep_loop :: "('a \<Rightarrow> error + bool) list \<Rightarrow> 'a list \<Rightarrow> error + 'a list" where
  "keep_loop [] data = Inr data"
| "keep_loop (func # funcs) data = bind_err (filter_err func data) (keep_loop funcs)"

definition keep :: "('a \<Rightarrow> error + bool) list \<Rightarrow> 'a clumper \<Rightarrow> error + 'a clumper" where
  "keep funcs self = bind_err (keep_loop funcs (blob self)) (\<lambda>data. Inr (create_new self data))"


definition tail :: "int \<Rightarrow> 'a clumper \<Rightarrow> error + 'a clumper" where
  "tail n self =
     (if n < 0 then Inl ValueError
      else let n' = min n (int (len self))
           in bind_err (mapM_err (\<lambda>i. list_getitem (blob self) (- int i))
                          [nat (int (len self) - n') ..< len self])
                (\<lambda>b. Inr (create_new self b)))"

section \<open>The join engine\<close>

text \<open>
  A dict display or comprehension stores its items in order, a later item overwriting an
  earlier one with the same key; \<open>{**a, **b}\<close> stores the items of \<open>b\<close> into a copy of \<open>a\<close>.
\<close>

definition dict_merge :: "('k \<times> 'v) list \<Rightarrow> ('k \<times> 'v) list \<Rightarrow> ('k \<times> 'v) list" where
  "dict_merge a b = foldl (\<lambda>d (k, v). AList.update k v d) a b"

definition dict_of_items :: "('k \<times> 'v) list \<Rightarrow> ('k \<times> 'v) list" where
  "dict_of_items kvs = dict_merge [] kvs"

text \<open>A join mapping is a dict from left key names to right key names.\<close>

type_synonym mapping = "(string \<times> string) list"

definition map_keys :: "mapping \<Rightarrow> string list" where
  "map_keys mapping = map fst mapping @ map snd mapping"

definition keys_to_suffix :: "dict \<Rightarrow> dict \<Rightarrow> mapping \<Rightarrow> string list" where
  "keys_to_suffix d1 d2 mapping =
     filter (\<lambda>k. k \<notin> set (map_keys mapping)) (filter (\<lambda>k. k \<in> set (keys d2)) (keys d1))"

definition suffixed :: "string list \<Rightarrow> string \<Rightarrow> string \<Rightarrow> string" where
  "suffixed ks sfx k = (if k \<in> set ks then k @ sfx else k)"

definition merge_dicts :: "dict \<Rightarrow> dict \<Rightarrow> mapping \<Rightarrow> string \<Rightarrow> string \<Rightarrow> dict" where
  "merge_dicts d1 d2 mapping suffix1 suffix2 =
     (let ks = keys_to_suffix d1 d2 mapping;
          d1_new = dict_of_items (map (\<lambda>(k, v). (suffixed ks suffix1 k, v)) d1);
          d2_new = dict_of_items (map (\<lambda>(k, v). (suffixed ks suffix2 k, v)) d2)
      in dict_merge d1_new d2_new)"

text \<open>\<open>[d[k] for k in ks if k in d.keys()]\<close>\<close>

definition present_values :: "dict \<Rightarrow> string list \<Rightarrow> val list" where
  "present_values d ks = map (\<lambda>k. the (map_of d k)) (filter (\<lambda>k. k \<in> set (keys d)) ks)"

text \<open>The test of both joins: \<open>len(mapping) == len(values_i) == len(values_j)\<close> and then
  \<open>values_i == values_j\<close>.\<close>

definition join_test :: "mapping \<Rightarrow> val list \<Rightarrow> val list \<Rightarrow> bool" where
  "join_test mapping values_i values_j =
     (length mapping = length values_i \<and> length values_i = length values_j
      \<and> values_i = values_j)"

text \<open>The inner loop of \<open>left_join\<close> carries the result list and the flag \<open>d_i_added\<close>.\<close>

fun left_join_inner ::
  "mapping \<Rightarrow> string \<Rightarrow> string \<Rightarrow> dict \<Rightarrow> val list \<Rightarrow> dict list \<Rightarrow> dict list \<times> bool
    \<Rightarrow> dict list \<times> bool" where
  "left_join_inner mapping lsuffix rsuffix d_i values_i [] st = st"
| "left_join_inner mapping lsuffix rsuffix d_i values_i (d_j # other) (result, d_i_added) =
     (let values_j = present_values d_j (map snd mapping)
      in if join_test mapping values_i values_j
         then left_join_inner mapping lsuffix rsuffix d_i values_i other
                (result @ [merge_dicts d_i d_j mapping lsuffix rsuffix], True)
         else left_join_inner mapping lsuffix rsuffix d_i values_i other (result, d_i_added))"

fun left_join_outer ::
  "mapping \<Rightarrow> string \<Rightarrow> string \<Rightarrow> dict list \<Rightarrow> dict list \<Rightarrow> dict list \<Rightarrow> dict list" where
  "left_join_outer mapping lsuffix rsuffix other [] result = result"
| "left_join_outer mapping lsuffix rsuffix other (d_i # rest) result =
     (let values_i = present_values d_i (map fst mapping);
          (result', d_i_added) =
             left_join_inner mapping lsuffix rsuffix d_i values_i other (result, False)
      in left_join_outer mapping lsuffix rsuffix other rest
           (if \<not> d_i_added then result' @ [d_i] else result'))"

definition left_join ::
  "dict clumper \<Rightarrow> dict clumper \<Rightarrow> mapping \<Rightarrow> string \<Rightarrow> string \<Rightarrow> dict clumper" where
  "left_join self other mapping lsuffix rsuffix =
     create_new self (left_join_outer mapping lsuffix rsuffix (blob other) (blob self) [])"

fun inner_join_inner ::
  "mapping \<Rightarrow> string \<Rightarrow> string \<Rightarrow> dict \<Rightarrow> val list \<Rightarrow> dict list \<Rightarrow> dict list \<Rightarrow> dict list" where
  "inner_join_inner mapping lsuffix rsuffix d_i values_i [] result = result"
| "inner_join_inner mapping lsuffix rsuffix d_i values_i (d_j # other) result =
     (let values_j = present_values d_j (map snd mapping)
      in if join_test mapping values_i values_j
         then inner_join_inner mapping lsuffix rsuffix d_i values_i other
                (result @ [merge_dicts d_i d_j mapping lsuffix rsuffix])
         else inner_join_inner mapping lsuffix rsuffix d_i values_i other result)"

fun inner_join_outer ::
  "mapping \<Rightarrow> string \<Rightarrow> string \<Rightarrow> dict list \<Rightarrow> dict list \<Rightarrow> dict list \<Rightarrow> dict list" where
  "inner_join_outer mapping lsuffix rsuffix other [] result = result"
| "inner_join_outer mapping lsuffix rsuffix other (d_i # rest) result =
     (let values_i = present_values d_i (map fst mapping)
      in inner_join_outer mapping lsuffix rsuffix other rest
           (inner_join_inner mapping lsuffix rsuffix d_i values_i other result))"

definition inner_join ::
  "dict clumper \<Rightarrow> dict clumper \<Rightarrow> mapping \<Rightarrow> string \<Rightarrow> string \<Rightarrow> dict clumper" where
  "inner_join self other mapping lsuffix rsuffix =
     create_new self (inner_join_outer mapping lsuffix rsuffix (blob other) (blob self) [])"

text \<open>
  The matching rule in the words of the specification: every mapped key pair is present
  on its side, and the two values are equal.
\<close>

definition pair_agrees :: "dict \<Rightarrow> dict \<Rightarrow> string \<times> string \<Rightarrow> bool" where
  "pair_agrees d_i d_j p =
     (case (map_of d_i (fst p), map_of d_j (snd p)) of
        (Some v, Some w) \<Rightarrow> v = w
      | _ \<Rightarrow> False)"

definition records_match :: "mapping \<Rightarrow> dict \<Rightarrow> dict \<Rightarrow> bool" where
  "records_match mapping d_i d_j = list_all (pair_agrees d_i d_j) mapping"

text \<open>The merged records one left record produces, in the order of the right collection.\<close>

definition merged_with :: "mapping \<Rightarrow> string \<Rightarrow> string \<Rightarrow> dict list \<Rightarrow> dict \<Rightarrow> dict list" where
  "merged_with mapping lsuffix rsuffix other d_i =
     map (\<lambda>d_j. merge_dicts d_i d_j mapping lsuffix rsuffix)
       (filter (records_match mapping d_i) other)"

section \<open>Aggregation\<close>

text \<open>A reducer takes the values of a column and returns a value, or raises.\<close>

type_synonym reducer = "val list \<Rightarrow> error + val"

text \<open>
  The parameters of the model:
  \<^item> \<open>set_list\<close>: the order in which \<open>list(set(d))\<close> enumerates the distinct items of \<open>d\<close>,
    which Python leaves unspecified;
  \<^item> \<open>no_groups\<close>: what the decorator \<open>grouped\<close> returns for a collection that has group
    keys and no group at all, which neither the sources nor the specification state;
  \<^item> the builtins \<open>min\<close>, \<open>max\<close> and the functions \<open>mean\<close>, \<open>median\<close>, \<open>variance\<close>,
    \<open>stdev\<close> of the module \<open>statistics\<close>, which are library code.
\<close>

record pyenv =
  set_list :: "val list \<Rightarrow> val list"
  no_groups :: "dict clumper \<Rightarrow> error + dict clumper"
  lib_min :: reducer
  lib_max :: reducer
  lib_mean :: reducer
  lib_median :: reducer
  lib_variance :: reducer
  lib_stdev :: reducer

text \<open>\<open>[d[key] for d in self if key in d.keys()]\<close>\<close>

definition col_values :: "dict clumper \<Rightarrow> string \<Rightarrow> val list" where
  "col_values self key =
     map (\<lambda>d. the (map_of d key)) (filter (\<lambda>d. key \<in> set (keys d)) (blob self))"

text \<open>\<open>set(d)\<close> raises \<open>TypeError\<close> when an item is a list, which is not hashable.\<close>

fun hashable :: "val \<Rightarrow> bool" where
  "hashable (VList xs) = False"
| "hashable v = True"

text \<open>The builtin \<open>sum\<close> starts from the integer 0 and adds the items from left to right.\<close>

fun sum_from :: "int \<Rightarrow> val list \<Rightarrow> error + val" where
  "sum_from acc [] = Inr (VInt acc)"
| "sum_from acc (VInt i # xs) = sum_from (acc + i) xs"
| "sum_from acc (v # xs) = Inl TypeError"

definition py_sum :: reducer where
  "py_sum d = sum_from 0 d"

definition py_len :: reducer where
  "py_len d = Inr (VInt (int (length d)))"

definition list_set :: "pyenv \<Rightarrow> reducer" where
  "list_set env d = (if list_all hashable d then Inr (VList (set_list env d)) else Inl TypeError)"

definition len_set :: reducer where
  "len_set d = (if list_all hashable d then Inr (VInt (int (card (set d)))) else Inl TypeError)"

text \<open>The registry of \<open>summarise_col\<close>, and its argument \<open>func\<close>: a name or a function.\<close>

definition funcs :: "pyenv \<Rightarrow> (string \<times> reducer) list" where
  "funcs env =
     [(''mean'', lib_mean env), (''count'', py_len), (''unique'', list_set env),
      (''n_unique'', len_set), (''sum'', py_sum), (''min'', lib_min env),
      (''max'', lib_max env), (''median'', lib_median env), (''var'', lib_variance env),
      (''std'', lib_stdev env)]"

datatype func = Name string | Callable reducer

definition summarise_col :: "pyenv \<Rightarrow> func \<Rightarrow> string \<Rightarrow> dict clumper \<Rightarrow> error + val" where
  "summarise_col env fn key self =
     (case fn of
        Name s \<Rightarrow> (case map_of (funcs env) s of
                     None \<Rightarrow> Inl ValueError
                   | Some f \<Rightarrow> f (col_values self key))
      | Callable f \<Rightarrow> f (col_values self key))"

text \<open>
  Modelled from the spec: the decorator \<open>return_value_if_empty\<close> of \<open>clumper.decorators\<close>,
  a module that is not among the sources. The scalar verbs hand it their sentinel
  \<open>value\<close>. A scalar verb invoked on zero matching values receives the sentinel instead
  of the reducer's result or error: the decorator returns the sentinel when no value is
  present under the column, and calls the method otherwise.
\<close>

definition return_value_if_empty ::
  "val \<Rightarrow> (dict clumper \<Rightarrow> string \<Rightarrow> error + val) \<Rightarrow> dict clumper \<Rightarrow> string \<Rightarrow> error + val" where
  "return_value_if_empty v method self col =
     (if col_values self col = [] then Inr v else method self col)"

text \<open>A set lists each of its items once.\<close>

definition env_ok :: "pyenv \<Rightarrow> bool" where
  "env_ok env = (\<forall>d. distinct (set_list env d) \<and> set (set_list env d) = set d)"

text \<open>
  The scalar verbs. The guard \<open>dict_collection_only\<close> (of the same module) rejects a
  collection that holds something other than a dictionary; the element type \<open>dict\<close>
  leaves it nothing to reject.
\<close>

definition sum_verb :: "pyenv \<Rightarrow> dict clumper \<Rightarrow> string \<Rightarrow> error + val" where
  "sum_verb env =
     return_value_if_empty VNone (\<lambda>self col. summarise_col env (Callable py_sum) col self)"

definition mean_verb :: "pyenv \<Rightarrow> dict clumper \<Rightarrow> string \<Rightarrow> error + val" where
  "mean_verb env =
     return_value_if_empty VNone
       (\<lambda>self col. summarise_col env (Callable (lib_mean env)) col self)"

definition count_verb :: "pyenv \<Rightarrow> dict clumper \<Rightarrow> string \<Rightarrow> error + val" where
  "count_verb env =
     return_value_if_empty (VInt 0)
       (\<lambda>self col. summarise_col env (Callable py_len) col self)"

definition n_unique :: "pyenv \<Rightarrow> dict clumper \<Rightarrow> string \<Rightarrow> error + val" where
  "n_unique env =
     return_value_if_empty (VInt 0)
       (\<lambda>self col. summarise_col env (Callable len_set) col self)"

definition min_verb :: "pyenv \<Rightarrow> dict clumper \<Rightarrow> string \<Rightarrow> error + val" where
  "min_verb env =
     return_value_if_empty VNone
       (\<lambda>self col. summarise_col env (Callable (lib_min env)) col self)"

definition max_verb :: "pyenv \<Rightarrow> dict clumper \<Rightarrow> string \<Rightarrow> error + val" where
  "max_verb env =
     return_value_if_empty VNone
       (\<lambda>self col. summarise_col env (Callable (lib_max env)) col self)"

definition unique :: "pyenv \<Rightarrow> dict clumper \<Rightarrow> string \<Rightarrow> error + val" where
  "unique env =
     return_value_if_empty (VList [])
       (\<lambda>self col. summarise_col env (Callable (list_set env)) col self)"

section \<open>Groups\<close>

text \<open>Iterating over the result of \<open>unique\<close>, which is a list.\<close>

definition iter :: "val \<Rightarrow> error + val list" where
  "iter v = (case v of VList xs \<Rightarrow> Inr xs | _ \<Rightarrow> Inl TypeError)"

text \<open>
  \<open>_group_combos\<close>: \<open>itertools.product\<close> advances its rightmost argument fastest, as
  \<open>product_lists\<close> does; each combination is zipped with the group keys into a dict.
\<close>

definition group_combos :: "pyenv \<Rightarrow> dict clumper \<Rightarrow> error + dict list" where
  "group_combos env self =
     bind_err (mapM_err (\<lambda>c. bind_err (unique env self c) iter) (groups self))
       (\<lambda>us. Inr (map (\<lambda>comb. dict_of_items (zip (groups self) comb)) (product_lists us)))"

text \<open>
  \<open>_subsets\<close>: for each combination the copy of the collection is narrowed key after key
  by \<open>keep(lambda d: d[key] == value)\<close>.
\<close>

fun narrow :: "(string \<times> val) list \<Rightarrow> dict clumper \<Rightarrow> error + dict clumper" where
  "narrow [] sub = Inr sub"
| "narrow ((key, v) # items) sub =
     bind_err (keep [\<lambda>d. bind_err (getitem d key) (\<lambda>w. Inr (w = v))] sub) (narrow items)"

definition subsets :: "pyenv \<Rightarrow> dict clumper \<Rightarrow> error + dict clumper list" where
  "subsets env self =
     bind_err (group_combos env self) (mapM_err (\<lambda>gc. narrow gc (copy self)))"








section \<open>Objects\<close>


















section \<open>Groups in the words of the specification\<close>

text \<open>
  A record possesses the group keys when it holds a value under each of them; the value
  must be hashable, since the distinct values of a key are collected in a set.
\<close>

definition has_group_keys :: "string list \<Rightarrow> dict \<Rightarrow> bool" where
  "has_group_keys g d =
     list_all (\<lambda>k. case map_of d k of None \<Rightarrow> False | Some v \<Rightarrow> hashable v) g"

text \<open>The values of a record under the group keys, and the records of one combination.\<close>

definition key_tuple :: "string list \<Rightarrow> dict \<Rightarrow> val option list" where
  "key_tuple g d = map (map_of d) g"

definition in_group :: "string list \<Rightarrow> val list \<Rightarrow> dict \<Rightarrow> bool" where
  "in_group g comb d = (key_tuple g d = map Some comb)"

text \<open>The full Cartesian product of the distinct values observed under each group key.\<close>

definition combinations :: "pyenv \<Rightarrow> dict clumper \<Rightarrow> val list list" where
  "combinations env self =
     product_lists (map (\<lambda>k. set_list env (col_values self k)) (groups self))"





section \<open>Example data\<close>

text \<open>Two records that share the key \<open>x\<close> and are joined on the key \<open>a\<close>.\<close>

definition left_rec :: dict where
  "left_rec = [(''a'', VInt 1), (''x'', VInt 1)]"

definition right_rec :: dict where
  "right_rec = [(''a'', VInt 1), (''x'', VInt 2)]"

definition on_a :: mapping where
  "on_a = [(''a'', ''a'')]"

definition lefts :: "dict clumper" where
  "lefts = Clumper [left_rec, [(''a'', VInt 3)]] []"

definition rights :: "dict clumper" where
  "rights = Clumper [right_rec, [(''a'', VInt 1)]] []"





text \<open>Two records grouped by two keys: two of the four combinations match no record.\<close>

definition diagonal_records :: "dict clumper" where
  "diagonal_records =
     Clumper [[(''a'', VInt 1), (''b'', VInt 1)], [(''a'', VInt 2), (''b'', VInt 2)]]
       [''a'', ''b'']"

text \<open>
  A runtime for the examples: a set lists its items in the order of their last
  occurrence, \<open>grouped\<close> raises when there is no group, \<open>min\<close> and \<open>max\<close> are those of an
  integer column. The examples call none of the statistics functions, whose results are
  floats; here they raise.
\<close>

fun int_items :: "val list \<Rightarrow> int list option" where
  "int_items [] = Some []"
| "int_items (VInt i # xs) = map_option (Cons i) (int_items xs)"
| "int_items (v # xs) = None"

definition int_min :: reducer where
  "int_min d =
     (case d of [] \<Rightarrow> Inl ValueError
      | v # vs \<Rightarrow> (if vs = [] then Inr v
                   else case int_items d of None \<Rightarrow> Inl TypeError
                        | Some is \<Rightarrow> Inr (VInt (fold min (tl is) (hd is)))))"

definition int_max :: reducer where
  "int_max d =
     (case d of [] \<Rightarrow> Inl ValueError
      | v # vs \<Rightarrow> (if vs = [] then Inr v
                   else case int_items d of None \<Rightarrow> Inl TypeError
                        | Some is \<Rightarrow> Inr (VInt (fold max (tl is) (hd is)))))"

definition no_floats :: reducer where
  "no_floats d = Inl TypeError"

definition example_env :: pyenv where
  "example_env =
     \<lparr>set_list = remdups, no_groups = (\<lambda>self. Inl TypeError),
      lib_min = int_min, lib_max = int_max, lib_mean = no_floats, lib_median = no_floats,
      lib_variance = no_floats, lib_stdev = no_floats\<rparr>"

section \<open>Both joins as comprehensions\<close>

lemma keys_mem: "k \<in> set (keys d) \<longleftrightarrow> map_of d k \<noteq> None"
  by (simp add: keys_def map_of_eq_None_iff)

lemma length_filter_eq: "length (filter P xs) = length xs \<longleftrightarrow> (\<forall>x\<in>set xs. P x)"
  by (metis filter_id_conv length_filter_less less_irrefl)

lemma present_values_full:
  "length (present_values d ks) = length ks \<longleftrightarrow> (\<forall>k\<in>set ks. map_of d k \<noteq> None)"
  by (simp add: present_values_def length_filter_eq keys_mem)

lemma present_values_all:
  "\<forall>k\<in>set ks. map_of d k \<noteq> None \<Longrightarrow> present_values d ks = map (\<lambda>k. the (map_of d k)) ks"
  by (simp add: present_values_def keys_mem)

lemma pair_agrees_iff:
  "pair_agrees d_i d_j p \<longleftrightarrow> (\<exists>v. map_of d_i (fst p) = Some v \<and> map_of d_j (snd p) = Some v)"
  by (auto simp: pair_agrees_def split: option.splits)

lemma records_match_iff:
  "records_match mapping d_i d_j \<longleftrightarrow>
     (\<forall>p\<in>set mapping. \<exists>v. map_of d_i (fst p) = Some v \<and> map_of d_j (snd p) = Some v)"
  by (simp add: records_match_def list_all_iff pair_agrees_iff)

lemma join_test_iff:
  "join_test mapping (present_values d_i (map fst mapping)) (present_values d_j (map snd mapping))
     = records_match mapping d_i d_j"
proof (cases "(\<forall>k\<in>set (map fst mapping). map_of d_i k \<noteq> None) \<and> (\<forall>k\<in>set (map snd mapping). map_of d_j k \<noteq> None)")
  case True
  then have "present_values d_i (map fst mapping) = map (\<lambda>k. the (map_of d_i k)) (map fst mapping)"
     and "present_values d_j (map snd mapping) = map (\<lambda>k. the (map_of d_j k)) (map snd mapping)"
    by (simp_all add: present_values_all)
  then have "join_test mapping (present_values d_i (map fst mapping)) (present_values d_j (map snd mapping))
      \<longleftrightarrow> (\<forall>p\<in>set mapping. the (map_of d_i (fst p)) = the (map_of d_j (snd p)))"
    by (simp add: join_test_def)
  also have "\<dots> \<longleftrightarrow> records_match mapping d_i d_j"
    unfolding records_match_iff
  proof (intro ball_cong refl)
    fix p assume "p \<in> set mapping"
    with True obtain v w where "map_of d_i (fst p) = Some v" "map_of d_j (snd p) = Some w"
      by fastforce
    then show "(the (map_of d_i (fst p)) = the (map_of d_j (snd p)))
        = (\<exists>v. map_of d_i (fst p) = Some v \<and> map_of d_j (snd p) = Some v)"
      by auto
  qed
  finally show ?thesis .
next
  case False
  then have "\<not> records_match mapping d_i d_j"
    by (fastforce simp: records_match_iff)
  moreover have "\<not> join_test mapping (present_values d_i (map fst mapping)) (present_values d_j (map snd mapping))"
  proof
    assume j: "join_test mapping (present_values d_i (map fst mapping)) (present_values d_j (map snd mapping))"
    then have "length (present_values d_i (map fst mapping)) = length (map fst mapping)"
      and "length (present_values d_j (map snd mapping)) = length (map snd mapping)"
      by (simp_all add: join_test_def)
    then have "(\<forall>k\<in>set (map fst mapping). map_of d_i k \<noteq> None)"
      and "(\<forall>k\<in>set (map snd mapping). map_of d_j k \<noteq> None)"
      by (simp_all only: present_values_full)
    with False show False by blast
  qed
  ultimately show ?thesis by simp
qed

lemma inner_join_inner_eq:
  "inner_join_inner mapping ls rs d_i (present_values d_i (map fst mapping)) other result
     = result @ merged_with mapping ls rs other d_i"
  by (induction other arbitrary: result) (simp_all add: merged_with_def join_test_iff Let_def)

lemma inner_join_outer_eq:
  "inner_join_outer mapping ls rs other self result
     = result @ concat (map (merged_with mapping ls rs other) self)"
  by (induction self arbitrary: result) (simp_all add: inner_join_inner_eq Let_def)

lemma left_join_inner_eq:
  "left_join_inner mapping ls rs d_i (present_values d_i (map fst mapping)) other (result, added)
     = (result @ merged_with mapping ls rs other d_i,
        added \<or> merged_with mapping ls rs other d_i \<noteq> [])"
  by (induction other arbitrary: result added) (simp_all add: merged_with_def join_test_iff Let_def)

lemma left_join_outer_eq:
  "left_join_outer mapping ls rs other self result
     = result @ concat (map (\<lambda>d_i. if merged_with mapping ls rs other d_i = [] then [d_i]
                                   else merged_with mapping ls rs other d_i) self)"
  by (induction self arbitrary: result) (simp_all add: left_join_inner_eq Let_def)


lemma inner_join_blob:
  "blob (inner_join self other mapping ls rs)
     = concat (map (merged_with mapping ls rs (blob other)) (blob self))"
  by (simp add: inner_join_def create_new_def Clumper_def inner_join_outer_eq)

lemma left_join_blob:
  "blob (left_join self other mapping ls rs)
     = concat (map (\<lambda>d_i. if merged_with mapping ls rs (blob other) d_i = [] then [d_i]
                          else merged_with mapping ls rs (blob other) d_i) (blob self))"
  by (simp add: left_join_def create_new_def Clumper_def left_join_outer_eq)

lemma merged_with_empty_iff:
  "merged_with mapping ls rs other d_i = [] \<longleftrightarrow> \<not> list_ex (records_match mapping d_i) other"
  by (simp add: merged_with_def filter_empty_conv list_ex_iff)

lemma subseq_concat_pad:
  "subseq (concat (map f xs)) (concat (map (\<lambda>x. if f x = [] then [x] else f x) xs))"
proof (induction xs)
  case Nil
  show ?case by simp
next
  case (Cons x xs)
  have "subseq (f x) (if f x = [] then [x] else f x)" by simp
  from list_emb_append_mono [OF this Cons.IH] show ?case by simp
qed

lemma mset_concat_pad:
  "mset (concat (map (\<lambda>x. if f x = [] then [x] else f x) xs))
     = mset (concat (map f xs)) + mset (filter (\<lambda>x. f x = []) xs)"
  by (induction xs) simp_all

section \<open>The matching rule\<close>

text \<open>
  C5. Both joins emit the merge of a left and a right record exactly when the pair
  passes the test of the code, and the test holds exactly when every mapped key pair
  is present on its side with equal values; a pair in which a mapped key is missing on
  either side is never merged.
\<close>

theorem join_match_rule:
  "blob (inner_join self other mapping ls rs)
     = concat (map (merged_with mapping ls rs (blob other)) (blob self))
   \<and> blob (left_join self other mapping ls rs)
     = concat (map (\<lambda>d_i. if merged_with mapping ls rs (blob other) d_i = [] then [d_i]
                          else merged_with mapping ls rs (blob other) d_i) (blob self))
   \<and> join_test mapping (present_values d_i (map fst mapping))
        (present_values d_j (map snd mapping))
     = (\<forall>p\<in>set mapping. \<exists>v. map_of d_i (fst p) = Some v \<and> map_of d_j (snd p) = Some v)
   \<and> records_match mapping d_i d_j
     = (\<forall>p\<in>set mapping. \<exists>v. map_of d_i (fst p) = Some v \<and> map_of d_j (snd p) = Some v)
   \<and> ((\<exists>p\<in>set mapping. map_of d_i (fst p) = None \<or> map_of d_j (snd p) = None)
        \<longrightarrow> merge_dicts d_i d_j mapping ls rs \<notin> set (merged_with mapping ls rs [d_j] d_i))"
proof (intro conjI)
  show "((\<exists>p\<in>set mapping. map_of d_i (fst p) = None \<or> map_of d_j (snd p) = None)
        \<longrightarrow> merge_dicts d_i d_j mapping ls rs \<notin> set (merged_with mapping ls rs [d_j] d_i))"
    by (auto simp: merged_with_def records_match_iff)
qed (simp_all only: inner_join_blob left_join_blob join_test_iff records_match_iff)

theorem join_match_rule_witness:
  "join_test on_a (present_values left_rec (map fst on_a)) (present_values right_rec (map snd on_a))
   \<and> records_match on_a left_rec right_rec
   \<and> (\<exists>p\<in>set on_a. map_of [(''x'', VInt 1)] (fst p) = None \<or> map_of right_rec (snd p) = None)
   \<and> merge_dicts [(''x'', VInt 1)] right_rec on_a [] ''_joined''
       \<notin> set (merged_with on_a [] ''_joined'' [right_rec] [(''x'', VInt 1)])"
proof -
  have h: "\<forall>p\<in>set on_a. \<exists>v. map_of left_rec (fst p) = Some v \<and> map_of right_rec (snd p) = Some v"
    by (simp add: on_a_def left_rec_def right_rec_def)
  have m: "\<exists>p\<in>set on_a. map_of [(''x'', VInt 1)] (fst p) = None \<or> map_of right_rec (snd p) = None"
    by (simp add: on_a_def)
  from h m
    join_match_rule [of lefts rights on_a "[]" "''_joined''" left_rec right_rec]
    join_match_rule [of lefts rights on_a "[]" "''_joined''" "[(''x'', VInt 1)]" right_rec]
  show ?thesis by blast
qed

section \<open>Left join and inner join\<close>

text \<open>
  C4. The records of \<open>inner_join\<close> occur, in order, among the records of \<open>left_join\<close>; the
  records \<open>left_join\<close> has beyond them are exactly the left records that match no right
  record, once each; so \<open>left_join\<close> has at least as many records; and every record of
  \<open>inner_join\<close> is the merge of a left and a right record whose values under every
  mapped key pair are present and equal.
\<close>

theorem left_join_extends_inner_join:
  "subseq (blob (inner_join self other mapping ls rs)) (blob (left_join self other mapping ls rs))
   \<and> mset (blob (left_join self other mapping ls rs))
       = mset (blob (inner_join self other mapping ls rs))
         + mset (filter (\<lambda>d_i. \<not> list_ex (records_match mapping d_i) (blob other)) (blob self))
   \<and> length (blob (inner_join self other mapping ls rs))
       \<le> length (blob (left_join self other mapping ls rs))
   \<and> (\<forall>r\<in>set (blob (inner_join self other mapping ls rs)).
         \<exists>d_i\<in>set (blob self). \<exists>d_j\<in>set (blob other).
           r = merge_dicts d_i d_j mapping ls rs
           \<and> (\<forall>p\<in>set mapping. \<exists>v. map_of d_i (fst p) = Some v \<and> map_of d_j (snd p) = Some v))"
proof (intro conjI)
  show sub: "subseq (blob (inner_join self other mapping ls rs))
      (blob (left_join self other mapping ls rs))"
    unfolding inner_join_blob left_join_blob by (rule subseq_concat_pad)
  show "mset (blob (left_join self other mapping ls rs))
       = mset (blob (inner_join self other mapping ls rs))
         + mset (filter (\<lambda>d_i. \<not> list_ex (records_match mapping d_i) (blob other)) (blob self))"
    unfolding inner_join_blob left_join_blob mset_concat_pad
    by (simp add: merged_with_empty_iff)
  from sub show "length (blob (inner_join self other mapping ls rs))
       \<le> length (blob (left_join self other mapping ls rs))"
    by (rule list_emb_length)
  show "\<forall>r\<in>set (blob (inner_join self other mapping ls rs)).
         \<exists>d_i\<in>set (blob self). \<exists>d_j\<in>set (blob other).
           r = merge_dicts d_i d_j mapping ls rs
           \<and> (\<forall>p\<in>set mapping. \<exists>v. map_of d_i (fst p) = Some v \<and> map_of d_j (snd p) = Some v)"
    unfolding inner_join_blob
    by (auto simp: merged_with_def records_match_iff)
qed

theorem left_join_extends_inner_join_witness:
  "[(''a'', VInt 1), (''x'', VInt 1), (''x_joined'', VInt 2)]
     \<in> set (blob (inner_join lefts rights on_a [] ''_joined''))
   \<and> (\<exists>d_i\<in>set (blob lefts). \<exists>d_j\<in>set (blob rights).
         [(''a'', VInt 1), (''x'', VInt 1), (''x_joined'', VInt 2)]
           = merge_dicts d_i d_j on_a [] ''_joined''
         \<and> (\<forall>p\<in>set on_a. \<exists>v. map_of d_i (fst p) = Some v \<and> map_of d_j (snd p) = Some v))
   \<and> length (blob (inner_join lefts rights on_a [] ''_joined'')) = 2
   \<and> length (blob (left_join lefts rights on_a [] ''_joined'')) = 3"
proof -
  have h: "[(''a'', VInt 1), (''x'', VInt 1), (''x_joined'', VInt 2)]
     \<in> set (blob (inner_join lefts rights on_a [] ''_joined''))"
    by code_simp
  have n: "length (blob (inner_join lefts rights on_a [] ''_joined'')) = 2"
    "length (blob (left_join lefts rights on_a [] ''_joined'')) = 3"
    by code_simp+
  from h n left_join_extends_inner_join [of lefts rights on_a "[]" "''_joined''"]
  show ?thesis by blast
qed

section \<open>Merging two records\<close>

lemma keys_dict_merge: "set (keys (dict_merge a b)) = set (keys a) \<union> set (keys b)"
proof (induction b arbitrary: a)
  case Nil
  show ?case by (simp add: dict_merge_def keys_def)
next
  case (Cons p b)
  obtain k v where p: "p = (k, v)" by (cases p)
  have "dict_merge a (p # b) = dict_merge (AList.update k v a) b"
    by (simp add: dict_merge_def p)
  then show ?case
    using Cons.IH [of "AList.update k v a"] dom_update [of k v a]
    by (auto simp: keys_def p)
qed

lemma map_of_dict_merge: "map_of (dict_merge a b) = map_of a ++ map_of (rev b)"
proof (induction b arbitrary: a)
  case Nil
  show ?case by (simp add: dict_merge_def)
next
  case (Cons p b)
  obtain k v where p: "p = (k, v)" by (cases p)
  have "dict_merge a (p # b) = dict_merge (AList.update k v a) b"
    by (simp add: dict_merge_def p)
  then show ?case
    using Cons.IH [of "AList.update k v a"]
    by (auto simp: p update_conv' fun_eq_iff map_add_def split: option.splits)
qed

lemma distinct_dict_merge: "distinct (map fst a) \<Longrightarrow> distinct (map fst (dict_merge a b))"
proof (induction b arbitrary: a)
  case Nil
  then show ?case by (simp add: dict_merge_def)
next
  case (Cons p b)
  obtain k v where p: "p = (k, v)" by (cases p)
  have "dict_merge a (p # b) = dict_merge (AList.update k v a) b"
    by (simp add: dict_merge_def p)
  with Cons show ?case by (simp add: distinct_update)
qed

lemma distinct_dict_of_items: "distinct (map fst (dict_of_items b))"
  by (simp add: dict_of_items_def distinct_dict_merge)

lemma keys_dict_of_items: "set (keys (dict_of_items b)) = set (keys b)"
  by (simp add: dict_of_items_def keys_dict_merge) (simp add: keys_def)

lemma map_of_dict_of_items: "map_of (dict_of_items b) = map_of (rev b)"
  by (simp add: dict_of_items_def map_of_dict_merge)

lemma map_of_rev_distinct: "distinct (map fst xs) \<Longrightarrow> map_of (rev xs) = map_of xs"
  by (rule map_of_inject_set [THEN iffD2]) (simp_all add: rev_map [symmetric])

lemma keys_renamed: "keys (map (\<lambda>(x, v). (f x, v)) d) = map f (keys d)"
  by (induction d) (auto simp: keys_def)

lemma keys_merge_dicts:
  "set (keys (merge_dicts d1 d2 mapping ls rs))
     = suffixed (keys_to_suffix d1 d2 mapping) ls ` set (keys d1)
       \<union> suffixed (keys_to_suffix d1 d2 mapping) rs ` set (keys d2)"
  by (simp add: merge_dicts_def Let_def keys_dict_merge keys_dict_of_items keys_renamed)

lemma map_of_renamed:
  "\<forall>x\<in>set (map fst d). f x = k \<longleftrightarrow> x = k \<Longrightarrow>
   map_of (map (\<lambda>(x, v). (f x, v)) d) k = map_of d k"
  by (induction d) auto

lemma map_of_merge_dicts:
  "map_of (merge_dicts d1 d2 mapping ls rs) k =
     (case map_of (map (\<lambda>(x, v). (suffixed (keys_to_suffix d1 d2 mapping) rs x, v)) (rev d2)) k of
        Some w \<Rightarrow> Some w
      | None \<Rightarrow> map_of (map (\<lambda>(x, v). (suffixed (keys_to_suffix d1 d2 mapping) ls x, v)) (rev d1)) k)"
  by (simp add: merge_dicts_def Let_def map_of_dict_merge map_of_dict_of_items
      map_of_rev_distinct [OF distinct_dict_of_items] rev_map map_add_def)



lemma in_keys_to_suffix:
  "k \<in> set (keys_to_suffix d1 d2 mapping)
     \<longleftrightarrow> k \<in> set (keys d1) \<and> k \<in> set (keys d2) \<and> k \<notin> set (map_keys mapping)"
  by (auto simp: keys_to_suffix_def)

text \<open>
  C3. The keys of the merged record are the keys of both records, each renamed by its
  side's suffix when it is shared and outside the join mapping, and kept otherwise. So a
  shared key outside the mapping appears under both suffixed names (two entries
  whenever the suffixes differ), a key of the mapping is never suffixed, and with the
  suffixes \<open>""\<close> and \<open>"_joined"\<close> the shared key \<open>x\<close> yields \<open>x\<close> and \<open>x_joined\<close>.
\<close>

theorem merge_dicts_suffixes:
  "set (keys (merge_dicts d1 d2 mapping ls rs))
     = suffixed (keys_to_suffix d1 d2 mapping) ls ` set (keys d1)
       \<union> suffixed (keys_to_suffix d1 d2 mapping) rs ` set (keys d2)
   \<and> (k \<in> set (keys d1) \<and> k \<in> set (keys d2) \<and> k \<notin> set (map_keys mapping) \<longrightarrow>
        suffixed (keys_to_suffix d1 d2 mapping) ls k = k @ ls
        \<and> suffixed (keys_to_suffix d1 d2 mapping) rs k = k @ rs
        \<and> k @ ls \<in> set (keys (merge_dicts d1 d2 mapping ls rs))
        \<and> k @ rs \<in> set (keys (merge_dicts d1 d2 mapping ls rs))
        \<and> (ls \<noteq> rs \<longrightarrow> k @ ls \<noteq> k @ rs))
   \<and> (m \<in> set (map_keys mapping) \<longrightarrow>
        suffixed (keys_to_suffix d1 d2 mapping) ls m = m
        \<and> suffixed (keys_to_suffix d1 d2 mapping) rs m = m
        \<and> (m \<in> set (keys d1) \<union> set (keys d2)
             \<longrightarrow> m \<in> set (keys (merge_dicts d1 d2 mapping ls rs))))
   \<and> merge_dicts [(''a'', VInt 1), (''x'', VInt 1)] [(''a'', VInt 1), (''x'', VInt 2)]
         [(''a'', ''a'')] [] ''_joined''
       = [(''a'', VInt 1), (''x'', VInt 1), (''x_joined'', VInt 2)]"
proof (intro conjI impI)
  let ?ks = "keys_to_suffix d1 d2 mapping"
  show "set (keys (merge_dicts d1 d2 mapping ls rs))
     = suffixed ?ks ls ` set (keys d1) \<union> suffixed ?ks rs ` set (keys d2)"
    by (rule keys_merge_dicts)
  show "merge_dicts [(''a'', VInt 1), (''x'', VInt 1)] [(''a'', VInt 1), (''x'', VInt 2)]
         [(''a'', ''a'')] [] ''_joined''
       = [(''a'', VInt 1), (''x'', VInt 1), (''x_joined'', VInt 2)]"
    by code_simp
next
  assume k: "k \<in> set (keys d1) \<and> k \<in> set (keys d2) \<and> k \<notin> set (map_keys mapping)"
  then have ks: "k \<in> set (keys_to_suffix d1 d2 mapping)" by (simp add: in_keys_to_suffix)
  then show l: "suffixed (keys_to_suffix d1 d2 mapping) ls k = k @ ls"
    and r: "suffixed (keys_to_suffix d1 d2 mapping) rs k = k @ rs"
    by (simp_all add: suffixed_def)
  from k have "suffixed (keys_to_suffix d1 d2 mapping) ls k \<in> set (keys (merge_dicts d1 d2 mapping ls rs))"
    and "suffixed (keys_to_suffix d1 d2 mapping) rs k \<in> set (keys (merge_dicts d1 d2 mapping ls rs))"
    unfolding keys_merge_dicts by blast+
  then show "k @ ls \<in> set (keys (merge_dicts d1 d2 mapping ls rs))"
    and "k @ rs \<in> set (keys (merge_dicts d1 d2 mapping ls rs))"
    by (simp_all only: l r)
  show "k @ ls \<noteq> k @ rs" if "ls \<noteq> rs" using that by simp
next
  assume m: "m \<in> set (map_keys mapping)"
  then have nks: "m \<notin> set (keys_to_suffix d1 d2 mapping)" by (simp add: in_keys_to_suffix)
  then show l: "suffixed (keys_to_suffix d1 d2 mapping) ls m = m"
    and r: "suffixed (keys_to_suffix d1 d2 mapping) rs m = m"
    by (simp_all add: suffixed_def)
  show "m \<in> set (keys (merge_dicts d1 d2 mapping ls rs))" if "m \<in> set (keys d1) \<union> set (keys d2)"
    using that l r unfolding keys_merge_dicts by (metis Un_iff image_eqI)
qed

theorem merge_dicts_suffixes_witness:
  "''x'' \<in> set (keys left_rec) \<and> ''x'' \<in> set (keys right_rec) \<and> ''x'' \<notin> set (map_keys on_a)
   \<and> ''x'' @ [] \<in> set (keys (merge_dicts left_rec right_rec on_a [] ''_joined''))
   \<and> ''x'' @ ''_joined'' \<in> set (keys (merge_dicts left_rec right_rec on_a [] ''_joined''))
   \<and> ''a'' \<in> set (map_keys on_a)
   \<and> ''a'' \<in> set (keys (merge_dicts left_rec right_rec on_a [] ''_joined''))"
proof -
  have h: "''x'' \<in> set (keys left_rec) \<and> ''x'' \<in> set (keys right_rec) \<and> ''x'' \<notin> set (map_keys on_a)"
    by (simp add: keys_def left_rec_def right_rec_def on_a_def map_keys_def)
  have m: "''a'' \<in> set (map_keys on_a)" "''a'' \<in> set (keys left_rec) \<union> set (keys right_rec)"
    by (simp_all add: keys_def left_rec_def on_a_def map_keys_def)
  from h m merge_dicts_suffixes [of left_rec right_rec on_a "[]" "''_joined''" "''x''" "''a''"]
  show ?thesis by blast
qed

text \<open>
  C6. Provided no suffixed key is renamed to the key \<open>k\<close> of the join mapping, the merged
  record holds under \<open>k\<close> the right record's entry named \<open>k\<close> when the right record has
  one, and the left record's value otherwise. So it holds the left record's value
  whenever the right record has no entry named \<open>k\<close> or holds the same value there, as it
  does for a key mapped to itself in a matching pair.
\<close>

theorem merge_dicts_mapped_value:
  assumes "wf_dict d1" and "wf_dict d2"
    and "k \<in> set (map_keys mapping)"
    and "\<forall>x\<in>set (keys_to_suffix d1 d2 mapping). x @ ls \<noteq> k \<and> x @ rs \<noteq> k"
  shows "map_of (merge_dicts d1 d2 mapping ls rs) k
           = (case map_of d2 k of None \<Rightarrow> map_of d1 k | Some w \<Rightarrow> Some w)
       \<and> (map_of d1 k = Some v \<and> (map_of d2 k = None \<or> map_of d2 k = Some v)
            \<longrightarrow> map_of (merge_dicts d1 d2 mapping ls rs) k = Some v)
       \<and> (records_match mapping d1 d2 \<and> (k, k) \<in> set mapping
            \<longrightarrow> map_of (merge_dicts d1 d2 mapping ls rs) k = map_of d1 k)"
proof -
  let ?ks = "keys_to_suffix d1 d2 mapping"
  from assms(3) have nk: "k \<notin> set ?ks" by (simp add: in_keys_to_suffix)
  have ren: "suffixed ?ks s x = k \<longleftrightarrow> x = k" if "s = ls \<or> s = rs" for s x
    using that assms(4) nk by (auto simp: suffixed_def)
  have "map_of (map (\<lambda>(x, v). (suffixed ?ks rs x, v)) (rev d2)) k = map_of (rev d2) k"
    by (rule map_of_renamed) (simp add: ren)
  also have "\<dots> = map_of d2 k"
    using assms(2) by (simp add: map_of_rev_distinct wf_dict_def keys_def)
  finally have r: "map_of (map (\<lambda>(x, v). (suffixed ?ks rs x, v)) (rev d2)) k = map_of d2 k" .
  have "map_of (map (\<lambda>(x, v). (suffixed ?ks ls x, v)) (rev d1)) k = map_of (rev d1) k"
    by (rule map_of_renamed) (simp add: ren)
  also have "\<dots> = map_of d1 k"
    using assms(1) by (simp add: map_of_rev_distinct wf_dict_def keys_def)
  finally have l: "map_of (map (\<lambda>(x, v). (suffixed ?ks ls x, v)) (rev d1)) k = map_of d1 k" .
  have g: "map_of (merge_dicts d1 d2 mapping ls rs) k
      = (case map_of d2 k of None \<Rightarrow> map_of d1 k | Some w \<Rightarrow> Some w)"
    unfolding map_of_merge_dicts r l by (simp split: option.splits)
  have "map_of (merge_dicts d1 d2 mapping ls rs) k = map_of d1 k"
    if "records_match mapping d1 d2 \<and> (k, k) \<in> set mapping"
  proof -
    from that obtain w where "map_of d1 k = Some w" "map_of d2 k = Some w"
      by (fastforce simp: records_match_iff)
    then show ?thesis by (simp add: g)
  qed
  with g show ?thesis by auto
qed

theorem merge_dicts_mapped_value_witness:
  "wf_dict left_rec \<and> wf_dict right_rec \<and> ''a'' \<in> set (map_keys on_a)
   \<and> list_all (\<lambda>x. x @ [] \<noteq> ''a'' \<and> x @ ''_joined'' \<noteq> ''a'')
         (keys_to_suffix left_rec right_rec on_a)
   \<and> map_of left_rec ''a'' = Some (VInt 1)
   \<and> map_of right_rec ''a'' = Some (VInt 1)
   \<and> records_match on_a left_rec right_rec \<and> (''a'', ''a'') \<in> set on_a
   \<and> map_of (merge_dicts left_rec right_rec on_a [] ''_joined'') ''a'' = Some (VInt 1)"
proof -
  have h1: "wf_dict left_rec" and h2: "wf_dict right_rec"
    by (simp_all add: wf_dict_def keys_def left_rec_def right_rec_def)
  have h3: "''a'' \<in> set (map_keys on_a)"
    by (simp add: on_a_def map_keys_def)
  have h4: "\<forall>x\<in>set (keys_to_suffix left_rec right_rec on_a).
      x @ [] \<noteq> ''a'' \<and> x @ ''_joined'' \<noteq> ''a''"
    by (simp add: keys_to_suffix_def keys_def left_rec_def right_rec_def on_a_def map_keys_def)
  have v: "map_of left_rec ''a'' = Some (VInt 1)" "map_of right_rec ''a'' = Some (VInt 1)"
    by (simp_all add: left_rec_def right_rec_def)
  have m: "records_match on_a left_rec right_rec" "(''a'', ''a'') \<in> set on_a"
    by (simp_all add: records_match_def pair_agrees_def on_a_def left_rec_def right_rec_def)
  from merge_dicts_mapped_value [OF h1 h2 h3 h4, of "VInt 1"] h1 h2 h3 h4 v m
  show ?thesis by (simp add: list_all_iff)
qed

text \<open>
  The left record \<open>{a: 1}\<close> and the right record \<open>{b: 1, a: 5}\<close> match on the mapping
  \<open>{a: b}\<close>; the merged record holds 5 under the mapped key \<open>a\<close>, the right record's value.
\<close>

theorem merge_dicts_right_value_wins:
  "records_match [(''a'', ''b'')] [(''a'', VInt 1)] [(''b'', VInt 1), (''a'', VInt 5)]
   \<and> map_of [(''a'', VInt 1)] ''a'' = Some (VInt 1)
   \<and> map_of (merge_dicts [(''a'', VInt 1)] [(''b'', VInt 1), (''a'', VInt 5)]
         [(''a'', ''b'')] [] ''_joined'') ''a'' = Some (VInt 5)
   \<and> blob (inner_join (Clumper [[(''a'', VInt 1)]] []) (Clumper [[(''b'', VInt 1), (''a'', VInt 5)]] [])
         [(''a'', ''b'')] [] ''_joined'') = [[(''a'', VInt 5), (''b'', VInt 1)]]"
  by code_simp

text \<open>
  A suffixed key can land on a key of the mapping: here \<open>x\<close> becomes \<open>x_joined\<close>, and the
  merged record holds under \<open>x_joined\<close> the value the right record has under \<open>x\<close>.
\<close>

lemma merge_dicts_suffix_collision:
  "map_of (merge_dicts [(''x_joined'', VInt 1), (''x'', VInt 0)]
             [(''x_joined'', VInt 1), (''x'', VInt 5)] [(''x_joined'', ''x_joined'')] []
             ''_joined'') ''x_joined'' = Some (VInt 5)"
  by code_simp

section \<open>Aggregating a column\<close>


lemma env_ok_example: "env_ok example_env"
  by (simp add: env_ok_def example_env_def)


lemma col_values_no_records: "blob self = [] \<Longrightarrow> col_values self col = []"
  by (simp add: col_values_def)

lemma set_list_Nil: "env_ok env \<Longrightarrow> set_list env [] = []"
  by (metis env_ok_def set_empty)





text \<open>
  C8. With no value under the requested column a scalar verb returns its sentinel and
  does not raise: \<open>count\<close> and \<open>n_unique\<close> return 0, \<open>unique\<close> returns the empty list, and
  \<open>sum\<close>, \<open>mean\<close>, \<open>min\<close> and \<open>max\<close> return \<open>None\<close>. The sentinel of \<open>sum\<close> is \<open>None\<close>, the value
  its decorator is given, and not 0.
\<close>

theorem scalar_verb_sentinels:
  assumes "col_values self col = []"
  shows "count_verb env self col = Inr (VInt 0)
       \<and> sum_verb env self col = Inr VNone
       \<and> n_unique env self col = Inr (VInt 0)
       \<and> unique env self col = Inr (VList [])
       \<and> mean_verb env self col = Inr VNone
       \<and> min_verb env self col = Inr VNone
       \<and> max_verb env self col = Inr VNone"
  using assms
  by (simp add: count_verb_def sum_verb_def n_unique_def unique_def mean_verb_def
      min_verb_def max_verb_def return_value_if_empty_def)

theorem scalar_verb_sentinels_witness:
  "col_values (Clumper [[(''a'', VInt 1)]] []) ''b'' = []
   \<and> count_verb example_env (Clumper [[(''a'', VInt 1)]] []) ''b'' = Inr (VInt 0)
   \<and> sum_verb example_env (Clumper [[(''a'', VInt 1)]] []) ''b'' = Inr VNone
   \<and> n_unique example_env (Clumper [[(''a'', VInt 1)]] []) ''b'' = Inr (VInt 0)
   \<and> unique example_env (Clumper [[(''a'', VInt 1)]] []) ''b'' = Inr (VList [])
   \<and> mean_verb example_env (Clumper [[(''a'', VInt 1)]] []) ''b'' = Inr VNone
   \<and> min_verb example_env (Clumper [[(''a'', VInt 1)]] []) ''b'' = Inr VNone
   \<and> max_verb example_env (Clumper [[(''a'', VInt 1)]] []) ''b'' = Inr VNone"
proof -
  have e: "col_values (Clumper [[(''a'', VInt 1)]] []) ''b'' = []"
    by (simp add: col_values_def Clumper_def keys_def)
  from e scalar_verb_sentinels [OF e, of example_env]
  show ?thesis by simp
qed

text \<open>\<open>sum\<close> on the collection without records returns \<open>None\<close>, not 0.\<close>

theorem sum_of_no_records_is_None:
  "sum_verb example_env (Clumper [] []) ''b'' = Inr VNone
   \<and> sum_verb example_env (Clumper [] []) ''b'' \<noteq> Inr (VInt 0)"
  by (simp add: sum_verb_def return_value_if_empty_def col_values_def Clumper_def)

section \<open>Which object a verb returns\<close>







section \<open>The group partitioner\<close>

lemma blob_Clumper [simp]: "blob (Clumper b g) = b"
  by (simp add: Clumper_def)

lemma groups_Clumper [simp]: "groups (Clumper b g) = g"
  by (simp add: Clumper_def)

lemma mapM_err_Inr: "\<forall>x\<in>set xs. f x = Inr (g x) \<Longrightarrow> mapM_err f xs = Inr (map g xs)"
  by (induction xs) simp_all

lemma mapM_err_map_Inr:
  "\<forall>x\<in>set xs. f (h x) = Inr (g x) \<Longrightarrow> mapM_err f (map h xs) = Inr (map g xs)"
  by (induction xs) simp_all

lemma filter_err_Inr: "\<forall>d\<in>set ds. f d = Inr (P d) \<Longrightarrow> filter_err f ds = Inr (filter P ds)"
  by (induction ds) simp_all

lemma update_fresh: "k \<notin> fst ` set al \<Longrightarrow> AList.update k v al = al @ [(k, v)]"
  by (induction al) auto

lemma dict_merge_distinct:
  "distinct (map fst (a @ b)) \<Longrightarrow> dict_merge a b = a @ b"
proof (induction b arbitrary: a)
  case Nil
  show ?case by (simp add: dict_merge_def)
next
  case (Cons p b)
  obtain k v where p: "p = (k, v)" by (cases p)
  from Cons.prems have "k \<notin> fst ` set a" by (auto simp: p)
  then have u: "AList.update k v a = a @ [(k, v)]" by (rule update_fresh)
  have "dict_merge a (p # b) = dict_merge (a @ [(k, v)]) b"
    by (simp add: dict_merge_def p u)
  also have "\<dots> = (a @ [(k, v)]) @ b"
    using Cons.prems by (intro Cons.IH) (simp add: p)
  finally show ?case by (simp add: p)
qed

lemma dict_of_items_distinct: "distinct (map fst b) \<Longrightarrow> dict_of_items b = b"
  using dict_merge_distinct [of "[]" b] by (simp add: dict_of_items_def)

lemma has_group_keys_iff:
  "has_group_keys g d \<longleftrightarrow> (\<forall>k\<in>set g. \<exists>v. map_of d k = Some v \<and> hashable v)"
  by (auto simp: has_group_keys_def list_all_iff split: option.splits)

lemma col_values_all:
  assumes "list_all (has_group_keys g) (blob self)" and "k \<in> set g"
  shows "col_values self k = map (\<lambda>d. the (map_of d k)) (blob self)"
    and "list_all hashable (col_values self k)"
proof -
  from assms have a: "\<forall>d\<in>set (blob self). \<exists>v. map_of d k = Some v \<and> hashable v"
    by (auto simp: list_all_iff has_group_keys_iff)
  then have "filter (\<lambda>d. k \<in> set (keys d)) (blob self) = blob self"
    by (auto simp: keys_mem filter_id_conv)
  then show c: "col_values self k = map (\<lambda>d. the (map_of d k)) (blob self)"
    by (simp add: col_values_def)
  from a show "list_all hashable (col_values self k)"
    unfolding c by (auto simp: list_all_iff)
qed

lemma unique_iter:
  assumes "env_ok env" and "list_all hashable (col_values self c)"
  shows "bind_err (unique env self c) iter = Inr (set_list env (col_values self c))"
  using assms(2) set_list_Nil [OF assms(1)]
  by (simp add: unique_def return_value_if_empty_def summarise_col_def list_set_def iter_def)

lemma combinations_length:
  "comb \<in> set (combinations env self) \<Longrightarrow> length comb = length (groups self)"
  by (auto simp: combinations_def dest: in_set_product_lists_length)

lemma group_combos_eq:
  assumes "env_ok env" and "distinct (groups self)"
    and "list_all (has_group_keys (groups self)) (blob self)"
  shows "group_combos env self = Inr (map (zip (groups self)) (combinations env self))"
proof -
  have "mapM_err (\<lambda>c. bind_err (unique env self c) iter) (groups self)
      = Inr (map (\<lambda>k. set_list env (col_values self k)) (groups self))"
    by (rule mapM_err_Inr) (simp add: unique_iter [OF assms(1)] col_values_all(2) [OF assms(3)])
  moreover have "dict_of_items (zip (groups self) comb) = zip (groups self) comb"
    for comb :: "val list"
    by (rule dict_of_items_distinct) (simp add: assms(2) map_fst_zip_take)
  ultimately show ?thesis
    by (simp add: group_combos_def combinations_def)
qed

lemma narrow_eq:
  assumes "\<forall>d\<in>set rows. \<forall>k\<in>fst ` set items. map_of d k \<noteq> None"
  shows "narrow items (Clumper rows g)
      = Inr (Clumper (filter (\<lambda>d. list_all (\<lambda>(k, v). map_of d k = Some v) items) rows) g)"
  using assms
proof (induction items arbitrary: rows)
  case Nil
  show ?case by simp
next
  case (Cons p items)
  obtain key v where p: "p = (key, v)" by (cases p)
  let ?f = "\<lambda>d. bind_err (getitem d key) (\<lambda>w. Inr (w = v))"
  have "\<forall>d\<in>set rows. ?f d = Inr (map_of d key = Some v)"
    using Cons.prems by (auto simp: p getitem_def split: option.splits)
  then have "filter_err ?f rows = Inr (filter (\<lambda>d. map_of d key = Some v) rows)"
    by (rule filter_err_Inr)
  then have k: "keep [?f] (Clumper rows g)
      = Inr (Clumper (filter (\<lambda>d. map_of d key = Some v) rows) g)"
    by (simp add: keep_def create_new_def Clumper_def)
  have "narrow items (Clumper (filter (\<lambda>d. map_of d key = Some v) rows) g)
      = Inr (Clumper (filter (\<lambda>d. list_all (\<lambda>(k, v). map_of d k = Some v) items)
               (filter (\<lambda>d. map_of d key = Some v) rows)) g)"
    using Cons.prems by (intro Cons.IH) (auto simp: p)
  with k show ?case by (simp add: p conj_commute)
qed

lemma zip_matches_iff:
  "length g = length comb \<Longrightarrow>
   list_all (\<lambda>(k, v). map_of d k = Some v) (zip g comb) \<longleftrightarrow> in_group g comb d"
  by (induction g comb rule: list_induct2) (auto simp: in_group_def key_tuple_def)

lemma subsets_eq:
  assumes "env_ok env" and "distinct (groups self)"
    and "list_all (has_group_keys (groups self)) (blob self)"
  shows "subsets env self
      = Inr (map (\<lambda>comb. Clumper (filter (in_group (groups self) comb) (blob self)) (groups self))
               (combinations env self))"
proof -
  have "narrow (zip (groups self) comb) (copy self)
      = Inr (Clumper (filter (in_group (groups self) comb) (blob self)) (groups self))"
    if "comb \<in> set (combinations env self)" for comb
  proof -
    from that have l: "length (groups self) = length comb"
      by (simp add: combinations_length)
    have "\<forall>d\<in>set (blob self). \<forall>k\<in>fst ` set (zip (groups self) comb). map_of d k \<noteq> None"
      using assms(3) by (fastforce simp: list_all_iff has_group_keys_iff dest: set_zip_leftD)
    from narrow_eq [OF this, of "groups self"] show ?thesis
      by (simp add: copy_def create_new_def zip_matches_iff [OF l])
  qed
  then have "mapM_err (\<lambda>gc. narrow gc (copy self)) (map (zip (groups self)) (combinations env self))
      = Inr (map (\<lambda>comb. Clumper (filter (in_group (groups self) comb) (blob self)) (groups self))
               (combinations env self))"
    by (intro mapM_err_map_Inr) simp
  then show ?thesis
    by (simp add: subsets_def group_combos_eq [OF assms])
qed

lemma set_combinations:
  assumes "env_ok env"
  shows "set (combinations env self)
      = {comb. length comb = length (groups self)
           \<and> (\<forall>i<length comb. comb ! i \<in> set (col_values self (groups self ! i)))}"
  using assms
  by (auto simp: combinations_def product_lists_set list_all2_conv_all_nth env_ok_def)

lemma distinct_combinations: "env_ok env \<Longrightarrow> distinct (combinations env self)"
  unfolding combinations_def by (rule distinct_product_lists) (auto simp: env_ok_def)

text \<open>
  C2. For pairwise distinct group keys and records that hold a hashable value under each
  of them, \<open>_group_combos\<close> enumerates the full Cartesian product of the distinct values
  observed under each key, each combination once, and \<open>_subsets\<close> returns one group per
  combination, in the same order: the records whose values under the keys equal the
  combination. A combination that no record matches is not dropped; its group is the
  empty collection.
\<close>

theorem subsets_cartesian:
  assumes "env_ok env" and "distinct (groups self)"
    and "list_all (has_group_keys (groups self)) (blob self)"
  shows "group_combos env self = Inr (map (zip (groups self)) (combinations env self))
       \<and> subsets env self
           = Inr (map (\<lambda>comb. Clumper (filter (in_group (groups self) comb) (blob self))
                               (groups self))
                    (combinations env self))
       \<and> distinct (combinations env self)
       \<and> set (combinations env self)
           = {comb. length comb = length (groups self)
                \<and> (\<forall>i<length comb. comb ! i \<in> set (col_values self (groups self ! i)))}"
  using group_combos_eq [OF assms] subsets_eq [OF assms] distinct_combinations [OF assms(1)]
    set_combinations [OF assms(1)]
  by (intro conjI)

theorem subsets_cartesian_witness:
  "env_ok example_env \<and> distinct (groups diagonal_records)
   \<and> list_all (has_group_keys (groups diagonal_records)) (blob diagonal_records)
   \<and> combinations example_env diagonal_records
       = [[VInt 1, VInt 1], [VInt 1, VInt 2], [VInt 2, VInt 1], [VInt 2, VInt 2]]
   \<and> subsets example_env diagonal_records
       = Inr [Clumper [[(''a'', VInt 1), (''b'', VInt 1)]] [''a'', ''b''],
              Clumper [] [''a'', ''b''], Clumper [] [''a'', ''b''],
              Clumper [[(''a'', VInt 2), (''b'', VInt 2)]] [''a'', ''b'']]"
proof -
  have d: "distinct (groups diagonal_records)"
    by (simp add: diagonal_records_def)
  have h: "list_all (has_group_keys (groups diagonal_records)) (blob diagonal_records)"
    by (simp add: diagonal_records_def has_group_keys_def)
  have c: "combinations example_env diagonal_records
       = [[VInt 1, VInt 1], [VInt 1, VInt 2], [VInt 2, VInt 1], [VInt 2, VInt 2]]"
    by code_simp
  have f: "map (\<lambda>comb. Clumper (filter (in_group (groups diagonal_records) comb)
                (blob diagonal_records)) (groups diagonal_records))
             [[VInt 1, VInt 1], [VInt 1, VInt 2], [VInt 2, VInt 1], [VInt 2, VInt 2]]
       = [Clumper [[(''a'', VInt 1), (''b'', VInt 1)]] [''a'', ''b''],
          Clumper [] [''a'', ''b''], Clumper [] [''a'', ''b''],
          Clumper [[(''a'', VInt 2), (''b'', VInt 2)]] [''a'', ''b'']]"
    by code_simp
  from subsets_cartesian [OF env_ok_example d h] env_ok_example d h c f
  show ?thesis by simp
qed

text \<open>
  Without these conditions the property fails. When a record lacks a group key, the
  filter \<open>d[key] == value\<close> raises \<open>KeyError\<close>. When a key is given twice, the dict of
  a combination keeps its last value only, so the group of the combination (1, 2)
  holds the record with the value 2. When a value under a key is a list, the set of
  the distinct values raises \<open>TypeError\<close>.
\<close>

theorem subsets_outside_conditions:
  "subsets example_env (Clumper [[(''a'', VInt 1)], [(''b'', VInt 2)]] [''a'']) = Inl KeyError
   \<and> group_combos example_env (Clumper [[(''a'', VInt 1)], [(''a'', VInt 2)]] [''a'', ''a''])
       = Inr [[(''a'', VInt 1)], [(''a'', VInt 2)], [(''a'', VInt 1)], [(''a'', VInt 2)]]
   \<and> subsets example_env (Clumper [[(''a'', VInt 1)], [(''a'', VInt 2)]] [''a'', ''a''])
       = Inr [Clumper [[(''a'', VInt 1)]] [''a'', ''a''], Clumper [[(''a'', VInt 2)]] [''a'', ''a''],
              Clumper [[(''a'', VInt 1)]] [''a'', ''a''], Clumper [[(''a'', VInt 2)]] [''a'', ''a'']]
   \<and> subsets example_env (Clumper [[(''a'', VList [VInt 1])]] [''a'']) = Inl TypeError"
  by code_simp

section \<open>Transform, group by group\<close>






lemma product_lists_empty_factor: "g \<noteq> [] \<Longrightarrow> product_lists (map (\<lambda>k. []) g) = []"
  by (cases g) simp_all









lemma Clumper_eta: "Clumper (blob c) (groups c) = c"
  by (simp add: Clumper_def)


lemma left_join_no_rows:
  "left_join (Clumper [] g) other mapping ls rs = Clumper [] g"
  by (simp add: left_join_def create_new_def)


















section \<open>Bottom items\<close>

text \<open>
  C10. \<open>tail(2)\<close> on the collection \<open>[1, 2, 3, 4]\<close> returns \<open>[3, 2]\<close>: the index \<open>-i\<close> runs
  over \<open>-2, -3\<close>, so the items are read backwards and one place too early, and the last
  item is never returned.
\<close>

theorem tail_two_of_four:
  "tail 2 (Clumper [1, 2, 3, 4 :: int] []) = Inr (Clumper [3, 2] [])"
  by (simp add: tail_def len_def Clumper_def create_new_def list_getitem_def upt_rec [of 2]
      upt_rec [of 3])

end
